theory Spec2Isabelle
  imports Main "HOL-Library.Word"
begin

unbundle bit_operations_syntax

section \<open>The 2048 game engine of \<^verbatim>\<open>2048_game.c\<close>\<close>

text \<open>
  The program keeps one \<^verbatim>\<open>struct game\<close>: two counters and a 4 by 4 array of tiles. A tile
  is a C \<^verbatim>\<open>int\<close> holding the rank of the tile (0 for an empty cell, r for the displayed
  value \<open>2 ^ r\<close>). A C \<^verbatim>\<open>int\<close> is a 32-bit word here: \<open>+\<close> wraps around, as the compiled
  program does, and \<open>sint\<close> reads the word as the signed number it stands for. The arrays
  are lists, a row of \<open>NCOLS\<close> tiles and a board of \<open>NROWS\<close> rows; \<open>wf_game\<close> states the
  sizes the C types fix.
\<close>

subsection \<open>Data\<close>

definition NROWS :: nat where
  "NROWS = 4"

definition NCOLS :: nat where
  "NCOLS = NROWS"

type_synonym cint = "32 word"

type_synonym tile = cint

record game =
  turns :: cint
  score :: cint
  board :: "tile list list"

definition wf_row :: "tile list \<Rightarrow> bool" where
  "wf_row row = (length row = NCOLS)"

definition wf_game :: "game \<Rightarrow> bool" where
  "wf_game g = (length (board g) = NROWS \<and> list_all wf_row (board g))"

subsection \<open>Rows: \<^verbatim>\<open>combine_left\<close> and \<^verbatim>\<open>deflate_left\<close>\<close>

text \<open>
  \<^verbatim>\<open>1 << n\<close> on \<^verbatim>\<open>int\<close>. C defines it for \<open>0 \<le> n \<le> 30\<close>, where it is \<open>2 ^ n\<close>; for any
  other count the shift of the machine takes the low five bits of the count, so that
  \<^verbatim>\<open>1 << 31\<close> and \<^verbatim>\<open>1 << -1\<close> are the least \<^verbatim>\<open>int\<close> and \<^verbatim>\<open>1 << 32\<close> is 1.
\<close>

definition shl1 :: "cint \<Rightarrow> cint" where
  "shl1 n = push_bit (unat n mod 32) 1"

text \<open>
  One pass of the loop body of \<^verbatim>\<open>combine_left\<close> at column \<open>c\<close>. The state is what the loop
  writes: \<^verbatim>\<open>game->score\<close>, the row and \<^verbatim>\<open>did_combine\<close>. The row points into the board of
  the same game; the function touches the score and that row only, so the two are passed
  and returned side by side and the caller stores the row back.
\<close>

definition combine_step :: "nat \<Rightarrow> cint \<times> tile list \<times> cint \<Rightarrow> cint \<times> tile list \<times> cint" where
  "combine_step c = (\<lambda>(sc, row, did_combine).
     if row ! c \<noteq> 0 \<and> row ! (c - 1) = row ! c then
       (let row1 = row[c - 1 := row ! (c - 1) + 1];
            row2 = row1[c := 0]
        in (sc + shl1 (row2 ! (c - 1) - 1), row2, 1))
     else (sc, row, did_combine))"

definition combine_left :: "cint \<Rightarrow> tile list \<Rightarrow> cint \<times> tile list \<times> cint" where
  "combine_left sc row = fold combine_step [1..<NCOLS] (sc, row, 0)"

text \<open>
  The loop body of \<^verbatim>\<open>deflate_left\<close> at index \<open>i\<close> (the source's \<^verbatim>\<open>in\<close>): the state is the
  buffer, the position of the pointer \<^verbatim>\<open>out\<close> in it, and \<^verbatim>\<open>did_deflate\<close>. The comparison
  \<^verbatim>\<open>buf[in] != row[in]\<close> reads the buffer after the store through \<^verbatim>\<open>out\<close>.
\<close>

definition deflate_step ::
  "tile list \<Rightarrow> nat \<Rightarrow> tile list \<times> nat \<times> cint \<Rightarrow> tile list \<times> nat \<times> cint" where
  "deflate_step row i = (\<lambda>(buf, out, did_deflate).
     if row ! i \<noteq> 0 then
       (let buf1 = buf[out := row ! i]
        in (buf1, out + 1, did_deflate OR (if buf1 ! i \<noteq> row ! i then 1 else 0)))
     else (buf, out, did_deflate))"

text \<open>The result is the row after the final \<^verbatim>\<open>memcpy\<close> and the returned flag.\<close>

definition deflate_left :: "tile list \<Rightarrow> tile list \<times> cint" where
  "deflate_left row =
     (let (buf, out, did_deflate) = fold (deflate_step row) [0..<NCOLS] (replicate NCOLS 0, 0, 0)
      in (buf, did_deflate))"

subsection \<open>\<^verbatim>\<open>move_left\<close>\<close>

text \<open>
  The loop body of \<^verbatim>\<open>move_left\<close> for row \<open>r\<close>; the state is the game and \<^verbatim>\<open>ret\<close>. The three
  calls work through the pointer \<^verbatim>\<open>&game->board[r][0]\<close>, so the row they leave is the row
  of the board.
\<close>

definition move_left_row :: "nat \<Rightarrow> game \<times> cint \<Rightarrow> game \<times> cint" where
  "move_left_row r = (\<lambda>(g, ret).
     (let (row1, d1) = deflate_left (board g ! r);
          ret1 = ret OR d1;
          (sc, row2, d2) = combine_left (score g) row1;
          ret2 = ret1 OR d2;
          (row3, d3) = deflate_left row2;
          ret3 = ret2 OR d3
      in (g\<lparr>score := sc, board := (board g)[r := row3]\<rparr>, ret3)))"

definition move_left :: "game \<Rightarrow> game" where
  "move_left g =
     (let (g1, ret) = fold move_left_row [0..<NROWS] (g, 0)
      in g1\<lparr>turns := turns g1 + ret\<rparr>)"

subsection \<open>\<^verbatim>\<open>rotate_clockwise\<close> and the other three moves\<close>

text \<open>
  \<^verbatim>\<open>rotate_clockwise\<close> copies the board to \<open>buf\<close> and stores \<^verbatim>\<open>buf[NCOLS - c - 1][r]\<close> in
  every cell \<open>(r, c)\<close>; no other field of the game is written.
\<close>

definition rotate_clockwise :: "game \<Rightarrow> game" where
  "rotate_clockwise g =
     (let buf = board g
      in g\<lparr>board := map (\<lambda>r. map (\<lambda>c. buf ! (NCOLS - c - 1) ! r) [0..<NCOLS]) [0..<NROWS]\<rparr>)"

definition move_right :: "game \<Rightarrow> game" where
  "move_right g =
     rotate_clockwise (rotate_clockwise (move_left (rotate_clockwise (rotate_clockwise g))))"

definition move_up :: "game \<Rightarrow> game" where
  "move_up g =
     rotate_clockwise (move_left (rotate_clockwise (rotate_clockwise (rotate_clockwise g))))"

definition move_down :: "game \<Rightarrow> game" where
  "move_down g =
     rotate_clockwise (rotate_clockwise (rotate_clockwise (move_left (rotate_clockwise g))))"

text \<open>\<^verbatim>\<open>lose_game\<close> works on its by-value copy of the game; the result is the C truth value.\<close>

definition lose_game :: "game \<Rightarrow> bool" where
  "lose_game test_game =
     (let start_turns = turns test_game;
          g1 = move_left test_game;
          g2 = move_up g1;
          g3 = move_down g2;
          g4 = move_right g3
      in turns g4 = start_turns)"

subsection \<open>\<^verbatim>\<open>place_tile\<close>\<close>

text \<open>
  \<^verbatim>\<open>lboard\<close> is the board read as one array of \<open>NROWS * NCOLS\<close> tiles: cell \<open>i\<close> is column
  \<open>i mod NCOLS\<close> of row \<open>i div NCOLS\<close>. The library's \<^verbatim>\<open>random()\<close> is a parameter: a step
  function on the generator's state giving the next draw, which is never negative.
\<close>

datatype error = AssertionFailed

definition lboard :: "game \<Rightarrow> nat \<Rightarrow> tile" where
  "lboard g i = board g ! (i div NCOLS) ! (i mod NCOLS)"

definition lboard_update :: "game \<Rightarrow> nat \<Rightarrow> tile \<Rightarrow> game" where
  "lboard_update g i v =
     g\<lparr>board := (board g)[i div NCOLS := (board g ! (i div NCOLS))[i mod NCOLS := v]]\<rparr>"

definition count_zeros :: "game \<Rightarrow> int" where
  "count_zeros g =
     fold (\<lambda>i num_zeros. num_zeros + (if lboard g i \<noteq> 0 then 0 else 1)) [0..<NROWS * NCOLS] 0"

text \<open>
  The second loop of \<^verbatim>\<open>place_tile\<close> over the indices still to visit: the index where the
  tile is stored, or \<open>None\<close> when the loop runs out (the source then reaches \<^verbatim>\<open>assert(0)\<close>).
  \<^verbatim>\<open>loc--\<close> is evaluated on empty cells only.
\<close>

fun find_place :: "game \<Rightarrow> nat list \<Rightarrow> int \<Rightarrow> nat option" where
  "find_place g [] loc = None"
| "find_place g (i # is) loc =
     (if lboard g i = 0 then (if loc = 0 then Some i else find_place g is (loc - 1))
      else find_place g is loc)"

text \<open>The result is the returned \<^verbatim>\<open>int\<close>, the game and the state of the generator.\<close>

definition place_tile :: "('r \<Rightarrow> nat \<times> 'r) \<Rightarrow> game \<Rightarrow> 'r \<Rightarrow> error + (int \<times> game \<times> 'r)" where
  "place_tile random g s =
     (let num_zeros = count_zeros g
      in if num_zeros = 0 then Inr (- 1, g, s)
         else (let (x, s1) = random s;
                   loc = int x mod num_zeros
               in case find_place g [0..<NROWS * NCOLS] loc of
                    None \<Rightarrow> Inl AssertionFailed
                  | Some i \<Rightarrow>
                      (let (y, s2) = random s1
                       in Inr (0, lboard_update g i (if y mod 10 \<noteq> 0 then 1 else 2), s2))))"

subsection \<open>Input and the main loop\<close>

text \<open>
  The value \<^verbatim>\<open>place_tile\<close> returns, the counter \<^verbatim>\<open>num_zeros\<close> (at most 16) and the keys are
  numbers no arithmetic of the program can take out of the range of \<^verbatim>\<open>int\<close>; they are
  \<open>int\<close> in the model. What \<^verbatim>\<open>main\<close> and \<^verbatim>\<open>get_input\<close> read and write besides the game: the generator, the unread
  rest of the playback file (\<open>None\<close> when \<^verbatim>\<open>playfile\<close> is \<^verbatim>\<open>NULL\<close>), the lines written to the
  record file (\<open>None\<close> when \<^verbatim>\<open>recfile\<close> is \<^verbatim>\<open>NULL\<close>; a line \<^verbatim>\<open>"%c:%d\n"\<close> is kept as the
  pair of its two fields), and the keys \<^verbatim>\<open>getch()\<close> is going to deliver. Drawing the screen
  and the playback delay are left out.
\<close>

record 'r session =
  game :: game
  rng :: 'r
  playfile :: "string option"
  recfile :: "(char \<times> int) list option"
  keyboard :: "int list"

text \<open>The values of \<^verbatim>\<open>curses.h\<close> (ncurses).\<close>

definition KEY_DOWN :: int where "KEY_DOWN = 258"
definition KEY_UP :: int where "KEY_UP = 259"
definition KEY_LEFT :: int where "KEY_LEFT = 260"
definition KEY_RIGHT :: int where "KEY_RIGHT = 261"
definition ERR :: int where "ERR = - 1"

definition newline :: char where
  "newline = CHR 0x0A"

text \<open>
  \<^verbatim>\<open>getline\<close> on the rest of a file: \<open>None\<close> at the end of the file (the C function returns
  \<open>-1\<close>), otherwise the next line with its newline, if it has one, and what follows.
\<close>

definition getline :: "string \<Rightarrow> (string \<times> string) option" where
  "getline f =
     (if f = [] then None
      else (let l = takeWhile (\<lambda>c. c \<noteq> newline) f;
                rest = dropWhile (\<lambda>c. c \<noteq> newline) f
            in Some (l @ take 1 rest, drop 1 rest)))"

definition strspn :: "string \<Rightarrow> string \<Rightarrow> nat" where
  "strspn str accept = length (takeWhile (\<lambda>c. c \<in> set accept) str)"

text \<open>
  \<^verbatim>\<open>line[n]\<close> for \<open>n\<close> up to the length of the line, where the terminating zero is. A
  byte is read as a value from 0 to 255; where \<^verbatim>\<open>char\<close> is signed the bytes from 128 on are
  negative in C, and in both readings they are none of the keys of \<^verbatim>\<open>main\<close>.
\<close>

definition char_at :: "string \<Rightarrow> nat \<Rightarrow> int" where
  "char_at line n = (if n < length line then of_char (line ! n) else 0)"

definition get_input :: "'r session \<Rightarrow> int \<times> 'r session" where
  "get_input s =
     (case playfile s of
        Some f \<Rightarrow>
          (case getline f of
             None \<Rightarrow> (of_char CHR ''q'', s)
           | Some (line, rest) \<Rightarrow>
               (if 0 < length line then char_at line (strspn line [CHR '' '', CHR 0x09])
                else of_char CHR ''q'',
                s\<lparr>playfile := Some rest\<rparr>))
      | None \<Rightarrow>
          (case keyboard s of
             [] \<Rightarrow> (ERR, s)
           | k # ks \<Rightarrow> (k, s\<lparr>keyboard := ks\<rparr>)))"

definition record_key :: "int \<Rightarrow> 'r session \<Rightarrow> 'r session" where
  "record_key key s =
     (case recfile s of
        None \<Rightarrow> s
      | Some ls \<Rightarrow> s\<lparr>recfile := Some (ls @ [(char_of key, sint (score (game s)))])\<rparr>)"

text \<open>The \<^verbatim>\<open>switch\<close> of \<^verbatim>\<open>main\<close>: \<open>None\<close> is the jump to \<^verbatim>\<open>end\<close> on \<^verbatim>\<open>'q'\<close>.\<close>

definition apply_key :: "int \<Rightarrow> game \<Rightarrow> game option" where
  "apply_key key g =
     (if key = of_char CHR ''a'' \<or> key = KEY_LEFT then Some (move_left g)
      else if key = of_char CHR ''s'' \<or> key = KEY_DOWN then Some (move_down g)
      else if key = of_char CHR ''w'' \<or> key = KEY_UP then Some (move_up g)
      else if key = of_char CHR ''d'' \<or> key = KEY_RIGHT then Some (move_right g)
      else if key = of_char CHR ''q'' then None
      else Some g)"

text \<open>
  The last statement of the loop body: \<^verbatim>\<open>if (last_turn != game.turns)\<close> with its two
  calls. The value \<^verbatim>\<open>place_tile\<close> returns is not used by \<^verbatim>\<open>main\<close>.
\<close>

definition place_and_record ::
  "('r \<Rightarrow> nat \<times> 'r) \<Rightarrow> int \<Rightarrow> cint \<Rightarrow> 'r session \<Rightarrow> error + 'r session" where
  "place_and_record random key last_turn s =
     (if last_turn \<noteq> turns (game s) then
        (case place_tile random (game s) (rng s) of
           Inl e \<Rightarrow> Inl e
         | Inr (ret, g, r) \<Rightarrow> Inr (record_key key (s\<lparr>game := g, rng := r\<rparr>)))
      else Inr s)"

datatype 'r status = Playing "'r session" | Lost "'r session" | Quit "'r session" | Aborted error

text \<open>One pass of \<^verbatim>\<open>while (1)\<close> in \<^verbatim>\<open>main\<close>.\<close>

definition main_step :: "('r \<Rightarrow> nat \<times> 'r) \<Rightarrow> 'r session \<Rightarrow> 'r status" where
  "main_step random s =
     (if lose_game (game s) then Lost s
      else (let last_turn = turns (game s);
                (key, s1) = get_input s
            in case apply_key key (game s1) of
                 None \<Rightarrow> Quit s1
               | Some g \<Rightarrow>
                   (case place_and_record random key last_turn (s1\<lparr>game := g\<rparr>) of
                      Inl e \<Rightarrow> Aborted e
                    | Inr s2 \<Rightarrow> Playing s2)))"



text \<open>A generator for running the model on examples: it counts up from its seed.\<close>

definition counter_random :: "nat \<Rightarrow> nat \<times> nat" where
  "counter_random s = (s, Suc s)"

subsection \<open>Notions used to state the properties\<close>

text \<open>The number of empty cells of a row, and the row with its tiles moved to the left end.\<close>

definition zeros :: "tile list \<Rightarrow> nat" where
  "zeros row = length (filter (\<lambda>x. x = 0) row)"

definition compact_row :: "tile list \<Rightarrow> tile list" where
  "compact_row row = filter (\<lambda>x. x \<noteq> 0) row @ replicate (zeros row) 0"

text \<open>
  The combining scan as the specification words it, on a row of ranks of any length, the
  ranks and the score being numbers: two adjacent equal ranks that are not 0 become the
  next rank and an empty cell, the score grows by \<open>2 ^ (new_rank - 1)\<close>, and the scan goes
  on behind the pair. The result is the row, the growth of the score and the number of
  merges.
\<close>

fun combine_row_left_spec :: "int list \<Rightarrow> int list \<times> int \<times> nat" where
  "combine_row_left_spec (a # b # rest) =
     (if b \<noteq> 0 \<and> a = b then
        (let new_rank = a + 1;
             (row', delta, n) = combine_row_left_spec rest
         in (new_rank # 0 # row', 2 ^ nat (new_rank - 1) + delta, Suc n))
      else (let (row', delta, n) = combine_row_left_spec (b # rest)
            in (a # row', delta, n)))"
| "combine_row_left_spec row = (row, 0, 0)"

text \<open>A rank the program can merge without leaving the range where C defines the shift.\<close>

definition rank_ok :: "tile \<Rightarrow> bool" where
  "rank_ok r = (unat r \<le> 30)"

text \<open>The same scan on the tiles of the program, with the arithmetic of the program.\<close>

fun merge_scan :: "tile list \<Rightarrow> tile list \<times> cint \<times> nat" where
  "merge_scan (a # b # rest) =
     (if b \<noteq> 0 \<and> a = b then
        (let (row', delta, n) = merge_scan rest
         in ((a + 1) # 0 # row', shl1 (a + 1 - 1) + delta, Suc n))
      else (let (row', delta, n) = merge_scan (b # rest)
            in (a # row', delta, n)))"
| "merge_scan row = (row, 0, 0)"

text \<open>The three calls of the body of \<^verbatim>\<open>move_left\<close> on one row, with the flags they return.\<close>

definition row_left :: "cint \<Rightarrow> tile list \<Rightarrow> cint \<times> tile list \<times> cint" where
  "row_left sc row =
     (let (row1, d1) = deflate_left row;
          (sc1, row2, d2) = combine_left sc row1;
          (row3, d3) = deflate_left row2
      in (sc1, row3, d1 OR d2 OR d3))"

definition has_empty :: "game \<Rightarrow> bool" where
  "has_empty g = (\<exists>row \<in> set (board g). 0 \<in> set row)"

text \<open>
  The empty cells of the board as (row, column) pairs in row-major order, the cell behind
  an index of \<^verbatim>\<open>lboard\<close>, and the indices of the empty cells.
\<close>

definition empty_cells :: "game \<Rightarrow> (nat \<times> nat) list" where
  "empty_cells g =
     filter (\<lambda>(r, c). board g ! r ! c = 0) (List.product [0..<NROWS] [0..<NCOLS])"

definition cell_of :: "nat \<Rightarrow> nat \<times> nat" where
  "cell_of i = (i div NCOLS, i mod NCOLS)"

definition empty_indices :: "game \<Rightarrow> nat list" where
  "empty_indices g = filter (\<lambda>i. lboard g i = 0) [0..<NROWS * NCOLS]"

section \<open>Rows\<close>

text \<open>The loops run over fixed ranges; a well-formed row has four tiles.\<close>

lemma upt_NCOLS: "[0..<NCOLS] = [0, 1, 2, 3]" "[1..<NCOLS] = [1, 2, 3]" "[Suc 0..<NCOLS] = [1, 2, 3]"
  by (simp_all add: NCOLS_def NROWS_def upt_rec)

lemma replicate_NCOLS: "replicate NCOLS x = [x, x, x, x]"
  by (simp add: NCOLS_def NROWS_def eval_nat_numeral)

lemma upt_NROWS: "[0..<NROWS] = [0, 1, 2, 3]"
  by (simp add: NROWS_def upt_rec)

lemma length4E:
  assumes "length xs = 4"
  obtains a b c d where "xs = [a, b, c, d]"
  using assms by (auto simp add: length_Suc_conv eval_nat_numeral)

lemma wf_rowE:
  assumes "wf_row row"
  obtains a b c d where "row = [a, b, c, d]"
  using assms by (auto simp add: wf_row_def NCOLS_def NROWS_def elim: length4E)

lemma deflate_left_compact_row:
  assumes "wf_row row"
  shows "deflate_left row = (compact_row row, if compact_row row \<noteq> row then 1 else 0)"
proof -
  obtain a b c d where r: "row = [a, b, c, d]" using assms by (rule wf_rowE)
  show ?thesis unfolding r
    by (simp add: deflate_left_def deflate_step_def upt_NCOLS replicate_NCOLS compact_row_def zeros_def Let_def)
qed

lemma combine_left_scan_eq:
  assumes "wf_row row"
  shows "combine_left sc row =
           (case merge_scan row of (row', delta, n) \<Rightarrow> (sc + delta, row', if 0 < n then 1 else 0))"
proof -
  obtain a b c d where r: "row = [a, b, c, d]" using assms by (rule wf_rowE)
  show ?thesis unfolding r
    by (simp add: combine_left_def combine_step_def upt_NCOLS Let_def shl1_def)
qed

lemma length_compact: "length (compact_row row) = length row"
  unfolding compact_row_def zeros_def
  using sum_length_filter_compl [of "\<lambda>x. x \<noteq> 0" row] by simp

lemma zeros_compact: "zeros (compact_row row) = zeros row"
  by (simp add: compact_row_def zeros_def)

lemma compact_idem: "compact_row (compact_row row) = compact_row row"
  by (simp add: compact_row_def zeros_def)

lemma compact_no_zero: "0 \<notin> set row \<Longrightarrow> compact_row row = row"
  by (induction row) (auto simp add: compact_row_def zeros_def)

lemma zeros_pos_iff: "0 < zeros row \<longleftrightarrow> 0 \<in> set row"
  by (induction row) (auto simp add: zeros_def)

lemma merge_scan_facts:
  "merge_scan row = (row', delta, n) \<Longrightarrow>
     length row' = length row \<and> zeros row + n \<le> zeros row' \<and> (n = 0 \<longrightarrow> row' = row \<and> delta = 0)"
proof (induction row arbitrary: row' delta n rule: merge_scan.induct)
  case (1 a b rest)
  show ?case
  proof (cases "b \<noteq> 0 \<and> a = b")
    case True
    obtain r1 d1 n1 where m: "merge_scan rest = (r1, d1, n1)"
      by (cases "merge_scan rest") auto
    from "1.IH"(1) [OF True m]
    have ih: "length r1 = length rest" "zeros rest + n1 \<le> zeros r1" by simp_all
    from "1.prems" True m
    have "row' = (a + 1) # 0 # r1" "n = Suc n1" by (simp_all add: Let_def)
    with ih True show ?thesis by (simp add: zeros_def)
  next
    case False
    obtain r1 d1 n1 where m: "merge_scan (b # rest) = (r1, d1, n1)"
      by (cases "merge_scan (b # rest)") auto
    from "1.IH"(2) [OF False m]
    have ih: "length r1 = length (b # rest)" "zeros (b # rest) + n1 \<le> zeros r1"
      "n1 = 0 \<longrightarrow> r1 = b # rest \<and> d1 = 0" by simp_all
    from "1.prems" False m
    have "row' = a # r1" "n = n1" "delta = d1" by auto
    with ih show ?thesis by (simp add: zeros_def)
  qed
qed (simp_all add: zeros_def)

lemma row_left_cases:
  assumes "wf_row row"
  obtains sc1 row1 d where "row_left sc row = (sc1, row1, d)" "wf_row row1"
    "d = 0 \<and> row1 = row \<and> sc1 = sc \<or> d = 1 \<and> row1 \<noteq> row \<and> 0 \<in> set row1"
proof -
  let ?c = "compact_row row"
  have wc: "wf_row ?c" using assms by (simp add: wf_row_def length_compact)
  obtain row2 delta n where m: "merge_scan ?c = (row2, delta, n)"
    by (cases "merge_scan ?c") auto
  note f = merge_scan_facts [OF m]
  have w2: "wf_row row2" using f wc by (simp add: wf_row_def)
  let ?r = "compact_row row2"
  have w3: "wf_row ?r" using w2 by (simp add: wf_row_def length_compact)
  let ?d = "(if ?c \<noteq> row then 1 else 0) OR (if 0 < n then 1 else 0) OR (if ?r \<noteq> row2 then 1 else (0::cint))"
  have eq: "row_left sc row = (sc + delta, ?r, ?d)"
    by (simp add: row_left_def deflate_left_compact_row [OF assms] combine_left_scan_eq [OF wc] m
          deflate_left_compact_row [OF w2])
  have "?d = 0 \<and> ?r = row \<and> sc + delta = sc \<or> ?d = 1 \<and> ?r \<noteq> row \<and> 0 \<in> set ?r"
  proof (cases "?c = row")
    case same: True
    show ?thesis
    proof (cases "n = 0")
      case True
      with f have "row2 = ?c" "delta = 0" by simp_all
      with same True show ?thesis by (simp add: compact_idem)
    next
      case False
      with f same have "zeros row < zeros ?r" by (simp add: zeros_compact)
      then have "?r \<noteq> row" "0 < zeros ?r" by auto
      with False same show ?thesis by (auto simp add: zeros_pos_iff)
    qed
  next
    case False
    then have "0 \<in> set row" using compact_no_zero by blast
    then have "0 < zeros row" by (simp add: zeros_pos_iff)
    with f have "0 < zeros ?r" by (simp add: zeros_compact)
    then have z: "0 \<in> set ?r" by (simp add: zeros_pos_iff)
    have "?r \<noteq> row"
    proof
      assume "?r = row"
      then have "compact_row ?r = ?c" by simp
      then have "?r = ?c" by (simp add: compact_idem)
      with \<open>?r = row\<close> False show False by simp
    qed
    with False z show ?thesis by auto
  qed
  with eq w3 that show ?thesis by blast
qed

section \<open>Moves on the board\<close>

lemma move_left_row_row_left:
  "move_left_row r (g, ret) =
     (case row_left (score g) (board g ! r) of
        (sc1, row1, d) \<Rightarrow> (g\<lparr>score := sc1, board := (board g)[r := row1]\<rparr>, ret OR d))"
  by (simp add: move_left_row_def row_left_def Let_def or.assoc split: prod.splits)

lemma wf_gameE:
  assumes "wf_game g"
  obtains r0 r1 r2 r3 where "board g = [r0, r1, r2, r3]"
    "wf_row r0" "wf_row r1" "wf_row r2" "wf_row r3"
proof -
  from assms have "length (board g) = 4" by (simp add: wf_game_def NROWS_def)
  then obtain r0 r1 r2 r3 where b: "board g = [r0, r1, r2, r3]" by (rule length4E)
  with assms that show ?thesis by (simp add: wf_game_def)
qed

lemma move_left_cases:
  assumes "wf_game g"
  shows "wf_game (move_left g) \<and>
         (move_left g = g \<or>
          turns (move_left g) = turns g + 1 \<and> board (move_left g) \<noteq> board g \<and>
          has_empty (move_left g))"
proof -
  obtain r0 r1 r2 r3 where b: "board g = [r0, r1, r2, r3]"
    and w: "wf_row r0" "wf_row r1" "wf_row r2" "wf_row r3"
    using assms by (rule wf_gameE)
  obtain s0 q0 d0 where e0: "row_left (score g) r0 = (s0, q0, d0)" and w0: "wf_row q0"
    and c0: "d0 = 0 \<and> q0 = r0 \<and> s0 = score g \<or> d0 = 1 \<and> q0 \<noteq> r0 \<and> 0 \<in> set q0"
    using row_left_cases [OF w(1)] by blast
  obtain s1 q1 d1 where e1: "row_left s0 r1 = (s1, q1, d1)" and w1: "wf_row q1"
    and c1: "d1 = 0 \<and> q1 = r1 \<and> s1 = s0 \<or> d1 = 1 \<and> q1 \<noteq> r1 \<and> 0 \<in> set q1"
    using row_left_cases [OF w(2)] by blast
  obtain s2 q2 d2 where e2: "row_left s1 r2 = (s2, q2, d2)" and w2: "wf_row q2"
    and c2: "d2 = 0 \<and> q2 = r2 \<and> s2 = s1 \<or> d2 = 1 \<and> q2 \<noteq> r2 \<and> 0 \<in> set q2"
    using row_left_cases [OF w(3)] by blast
  obtain s3 q3 d3 where e3: "row_left s2 r3 = (s3, q3, d3)" and w3: "wf_row q3"
    and c3: "d3 = 0 \<and> q3 = r3 \<and> s3 = s2 \<or> d3 = 1 \<and> q3 \<noteq> r3 \<and> 0 \<in> set q3"
    using row_left_cases [OF w(4)] by blast
  have ml: "move_left g = g\<lparr>turns := turns g + (d0 OR d1 OR d2 OR d3), score := s3, board := [q0, q1, q2, q3]\<rparr>"
    by (simp add: move_left_def upt_NROWS move_left_row_row_left b e0 e1 e2 e3 or.assoc)
  have wf: "wf_game (move_left g)"
    by (simp add: ml wf_game_def NROWS_def w0 w1 w2 w3)
  have "move_left g = g \<or>
          turns (move_left g) = turns g + 1 \<and> board (move_left g) \<noteq> board g \<and> has_empty (move_left g)"
  proof (cases "d0 = 0 \<and> d1 = 0 \<and> d2 = 0 \<and> d3 = 0")
    case True
    with c0 c1 c2 c3 have "move_left g = g" by (simp add: ml b [symmetric])
    then show ?thesis by simp
  next
    case False
    with c0 c1 c2 c3 have "d0 OR d1 OR d2 OR d3 = 1" by auto
    moreover from False c0 c1 c2 c3 have "[q0, q1, q2, q3] \<noteq> [r0, r1, r2, r3]" by auto
    moreover from False c0 c1 c2 c3 have "0 \<in> set q0 \<or> 0 \<in> set q1 \<or> 0 \<in> set q2 \<or> 0 \<in> set q3" by auto
    ultimately show ?thesis by (simp add: ml b has_empty_def)
  qed
  with wf show ?thesis by simp
qed

subsection \<open>Rotation\<close>

lemma wf_rotate: "wf_game (rotate_clockwise g)"
  by (simp add: rotate_clockwise_def Let_def wf_game_def wf_row_def list_all_iff)

lemma rotate_fields: "turns (rotate_clockwise g) = turns g" "score (rotate_clockwise g) = score g"
  by (simp_all add: rotate_clockwise_def Let_def)

lemma rotate4:
  assumes "wf_game g"
  shows "rotate_clockwise (rotate_clockwise (rotate_clockwise (rotate_clockwise g))) = g"
proof -
  obtain r0 r1 r2 r3 where b: "board g = [r0, r1, r2, r3]"
    and w: "wf_row r0" "wf_row r1" "wf_row r2" "wf_row r3"
    using assms by (rule wf_gameE)
  obtain a0 a1 a2 a3 where r0: "r0 = [a0, a1, a2, a3]" using w(1) by (rule wf_rowE)
  obtain b0 b1 b2 b3 where r1: "r1 = [b0, b1, b2, b3]" using w(2) by (rule wf_rowE)
  obtain c0 c1 c2 c3 where r2: "r2 = [c0, c1, c2, c3]" using w(3) by (rule wf_rowE)
  obtain d0 d1 d2 d3 where r3: "r3 = [d0, d1, d2, d3]" using w(4) by (rule wf_rowE)
  have n: "NCOLS = 4" by (simp add: NCOLS_def NROWS_def)
  show ?thesis
    by (simp add: rotate_clockwise_def Let_def upt_NCOLS upt_NROWS n b r0 r1 r2 r3 eval_nat_numeral)
qed

lemma has_empty_rotate:
  assumes "wf_game g"
  shows "has_empty (rotate_clockwise g) = has_empty g"
proof -
  obtain r0 r1 r2 r3 where b: "board g = [r0, r1, r2, r3]"
    and w: "wf_row r0" "wf_row r1" "wf_row r2" "wf_row r3"
    using assms by (rule wf_gameE)
  obtain a0 a1 a2 a3 where r0: "r0 = [a0, a1, a2, a3]" using w(1) by (rule wf_rowE)
  obtain b0 b1 b2 b3 where r1: "r1 = [b0, b1, b2, b3]" using w(2) by (rule wf_rowE)
  obtain c0 c1 c2 c3 where r2: "r2 = [c0, c1, c2, c3]" using w(3) by (rule wf_rowE)
  obtain d0 d1 d2 d3 where r3: "r3 = [d0, d1, d2, d3]" using w(4) by (rule wf_rowE)
  have n: "NCOLS = 4" by (simp add: NCOLS_def NROWS_def)
  show ?thesis
    by (simp add: has_empty_def rotate_clockwise_def Let_def upt_NCOLS upt_NROWS n b r0 r1 r2 r3 eval_nat_numeral)
       blast
qed

subsection \<open>The moves derived by rotation\<close>

lemma rotate_board_cong:
  "board x = board y \<Longrightarrow> board (rotate_clockwise x) = board (rotate_clockwise y)"
  by (simp add: rotate_clockwise_def Let_def)

lemma move_right_cases:
  assumes "wf_game g"
  shows "wf_game (move_right g) \<and>
         (move_right g = g \<or>
          turns (move_right g) = turns g + 1 \<and> board (move_right g) \<noteq> board g \<and>
          has_empty (move_right g))"
proof -
  let ?h = "rotate_clockwise (rotate_clockwise g)"
  let ?m = "move_left ?h"
  have wh: "wf_game ?h" by (rule wf_rotate)
  note c = move_left_cases [OF wh]
  then have wm: "wf_game ?m" by simp
  have mr: "move_right g = rotate_clockwise (rotate_clockwise ?m)" by (simp add: move_right_def)
  have wf: "wf_game (move_right g)" unfolding mr by (rule wf_rotate)
  show ?thesis
  proof (cases "?m = ?h")
    case True
    then have "move_right g = g" using rotate4 [OF assms] by (simp add: mr)
    with assms show ?thesis by simp
  next
    case False
    with c have t: "turns ?m = turns ?h + 1" and b: "board ?m \<noteq> board ?h" and e: "has_empty ?m"
      by simp_all
    have "turns (move_right g) = turns g + 1" using t by (simp add: mr rotate_fields)
    moreover have "has_empty (move_right g)"
      using e wm by (simp add: mr has_empty_rotate wf_rotate)
    moreover have "board (move_right g) \<noteq> board g"
    proof
      assume "board (move_right g) = board g"
      then have "board (rotate_clockwise (rotate_clockwise (move_right g))) = board ?h"
        by (intro rotate_board_cong)
      then show False using b rotate4 [OF wm] by (simp add: mr)
    qed
    ultimately show ?thesis using wf by simp
  qed
qed

lemma move_up_cases:
  assumes "wf_game g"
  shows "wf_game (move_up g) \<and>
         (move_up g = g \<or>
          turns (move_up g) = turns g + 1 \<and> board (move_up g) \<noteq> board g \<and>
          has_empty (move_up g))"
proof -
  let ?h = "rotate_clockwise (rotate_clockwise (rotate_clockwise g))"
  let ?m = "move_left ?h"
  have wh: "wf_game ?h" by (rule wf_rotate)
  note c = move_left_cases [OF wh]
  then have wm: "wf_game ?m" by simp
  have mr: "move_up g = rotate_clockwise ?m" by (simp add: move_up_def)
  have wf: "wf_game (move_up g)" unfolding mr by (rule wf_rotate)
  show ?thesis
  proof (cases "?m = ?h")
    case True
    then have "move_up g = g" using rotate4 [OF assms] by (simp add: mr)
    with assms show ?thesis by simp
  next
    case False
    with c have t: "turns ?m = turns ?h + 1" and b: "board ?m \<noteq> board ?h" and e: "has_empty ?m"
      by simp_all
    have "turns (move_up g) = turns g + 1" using t by (simp add: mr rotate_fields)
    moreover have "has_empty (move_up g)"
      using e wm by (simp add: mr has_empty_rotate)
    moreover have "board (move_up g) \<noteq> board g"
    proof
      assume "board (move_up g) = board g"
      then have "board (rotate_clockwise (rotate_clockwise (rotate_clockwise (move_up g)))) = board ?h"
        by (intro rotate_board_cong)
      then show False using b rotate4 [OF wm] by (simp add: mr)
    qed
    ultimately show ?thesis using wf by simp
  qed
qed

lemma move_down_cases:
  assumes "wf_game g"
  shows "wf_game (move_down g) \<and>
         (move_down g = g \<or>
          turns (move_down g) = turns g + 1 \<and> board (move_down g) \<noteq> board g \<and>
          has_empty (move_down g))"
proof -
  let ?h = "rotate_clockwise g"
  let ?m = "move_left ?h"
  have wh: "wf_game ?h" by (rule wf_rotate)
  note c = move_left_cases [OF wh]
  then have wm: "wf_game ?m" by simp
  have mr: "move_down g = rotate_clockwise (rotate_clockwise (rotate_clockwise ?m))"
    by (simp add: move_down_def)
  have wf: "wf_game (move_down g)" unfolding mr by (rule wf_rotate)
  show ?thesis
  proof (cases "?m = ?h")
    case True
    then have "move_down g = g" using rotate4 [OF assms] by (simp add: mr)
    with assms show ?thesis by simp
  next
    case False
    with c have t: "turns ?m = turns ?h + 1" and b: "board ?m \<noteq> board ?h" and e: "has_empty ?m"
      by simp_all
    have "turns (move_down g) = turns g + 1" using t by (simp add: mr rotate_fields)
    moreover have "has_empty (move_down g)"
      using e wm by (simp add: mr has_empty_rotate wf_rotate)
    moreover have "board (move_down g) \<noteq> board g"
    proof
      assume "board (move_down g) = board g"
      then have "board (rotate_clockwise (move_down g)) = board ?h"
        by (intro rotate_board_cong)
      then show False using b rotate4 [OF wm] by (simp add: mr)
    qed
    ultimately show ?thesis using wf by simp
  qed
qed

section \<open>Placing a tile\<close>

lemma cells_row_major: "map cell_of [0..<NROWS * NCOLS] = List.product [0..<NROWS] [0..<NCOLS]"
  by (simp add: cell_of_def NROWS_def NCOLS_def upt_rec)

lemma empty_cells_indices: "empty_cells g = map cell_of (empty_indices g)"
proof -
  have "(\<lambda>i. lboard g i = 0) = (\<lambda>(r, c). board g ! r ! c = 0) \<circ> cell_of"
    by (simp add: fun_eq_iff lboard_def cell_of_def)
  then show ?thesis
    by (simp add: empty_cells_def empty_indices_def filter_map cells_row_major [symmetric])
qed

lemma count_loop:
  "fold (\<lambda>i num_zeros. num_zeros + (if P i then 0 else 1)) xs n =
     n + int (length (filter (\<lambda>i. \<not> P i) xs))"
  by (induction xs arbitrary: n) simp_all

lemma count_zeros_empty: "count_zeros g = int (length (empty_indices g))"
  by (simp add: count_zeros_def empty_indices_def count_loop)

lemma find_place_nth:
  "0 \<le> loc \<Longrightarrow> nat loc < length (filter (\<lambda>i. lboard g i = 0) xs) \<Longrightarrow>
     find_place g xs loc = Some (filter (\<lambda>i. lboard g i = 0) xs ! nat loc)"
proof (induction xs arbitrary: loc)
  case Nil
  then show ?case by simp
next
  case (Cons i xs)
  show ?case
  proof (cases "lboard g i = 0")
    case False
    with Cons show ?thesis by simp
  next
    case True
    show ?thesis
    proof (cases "loc = 0")
      case True
      with \<open>lboard g i = 0\<close> show ?thesis by simp
    next
      case False
      with Cons.prems have p: "0 \<le> loc - 1" "nat (loc - 1) < length (filter (\<lambda>i. lboard g i = 0) xs)"
        using True by auto
      have "nat loc = Suc (nat (loc - 1))" using False Cons.prems by auto
      with Cons.IH [OF p] True False show ?thesis by simp
    qed
  qed
qed

lemma place_tile_full:
  assumes "empty_cells g = []"
  shows "place_tile random g s = Inr (- 1, g, s)"
  using assms by (simp add: place_tile_def count_zeros_empty empty_cells_indices)

lemma place_tile_free:
  assumes "empty_cells g \<noteq> []" and "random s = (x, s1)" and "random s1 = (y, s2)"
    and "empty_cells g ! (x mod length (empty_cells g)) = (r, c)"
  shows "place_tile random g s =
           Inr (0, g\<lparr>board := (board g)[r := (board g ! r)[c := (if y mod 10 \<noteq> 0 then 1 else 2)]]\<rparr>, s2)"
proof -
  let ?es = "empty_indices g"
  let ?k = "x mod length ?es"
  have ne: "?es \<noteq> []" using assms(1) by (simp add: empty_cells_indices)
  then have k: "?k < length ?es" by simp
  have loc: "int x mod int (length ?es) = int ?k" by (simp add: zmod_int)
  have "find_place g [0..<NROWS * NCOLS] (int ?k) = Some (?es ! ?k)"
    using find_place_nth [of "int ?k" g "[0..<NROWS * NCOLS]"] k by (simp add: empty_indices_def)
  moreover have "cell_of (?es ! ?k) = (r, c)"
    using assms(4) k by (simp add: empty_cells_indices)
  ultimately show ?thesis
    using ne assms(2,3)
    by (simp add: place_tile_def count_zeros_empty loc lboard_update_def cell_of_def)
qed

lemma has_empty_cells:
  assumes "wf_game g" and "has_empty g"
  shows "empty_cells g \<noteq> []"
proof -
  from assms(2) obtain row where row: "row \<in> set (board g)" "0 \<in> set row"
    by (auto simp add: has_empty_def)
  from row(1) obtain r where r: "r < length (board g)" "board g ! r = row"
    by (auto simp add: in_set_conv_nth)
  from row(2) obtain c where c: "c < length row" "row ! c = 0"
    by (auto simp add: in_set_conv_nth)
  from assms(1) row(1) have "length row = NCOLS" "length (board g) = NROWS"
    by (auto simp add: wf_game_def wf_row_def list_all_iff)
  with r c have "(r, c) \<in> set (empty_cells g)" by (simp add: empty_cells_def)
  then show ?thesis by auto
qed

section \<open>Ranks and numbers\<close>

text \<open>On ranks from 0 to 30 the words of the program are the numbers of the specification.\<close>

lemma rank_ok_uint: "rank_ok a \<Longrightarrow> uint a \<le> 30"
  unfolding rank_ok_def uint_nat by linarith

lemma rank_ok_sint:
  assumes "rank_ok a"
  shows "sint a = int (unat a)"
proof -
  have "uint a \<le> 30" using assms by (rule rank_ok_uint)
  then have hi: "uint a < 2 ^ 31" by simp
  have lo: "- (2 ^ 31) \<le> uint a" by (rule order_trans [of _ 0]) simp_all
  from lo hi have "signed_take_bit 31 (uint a) = uint a"
    by (rule signed_take_bit_int_eq_self)
  then show ?thesis by (simp add: sint_uint)
qed

lemma rank_ok_bounds: "rank_ok a \<Longrightarrow> 0 \<le> sint a \<and> sint a \<le> 30"
  using rank_ok_sint [of a] rank_ok_uint [of a] by simp

lemma sint_eq_iff': "sint (a::cint) = sint b \<longleftrightarrow> a = b"
  by (metis signed_word_eqI)

lemma sint_zero_iff: "sint (a::cint) = 0 \<longleftrightarrow> a = 0"
  by (metis signed_eq_0_iff)

lemma shl1_rank: 
  assumes "rank_ok a"
  shows "shl1 (a + 1 - 1) = word_of_int (2 ^ nat (sint a + 1 - 1))"
proof -
  have "unat a mod 32 = unat a" using assms by (simp add: rank_ok_def)
  then have "shl1 (a + 1 - 1) = 2 ^ unat a" by (simp add: shl1_def push_bit_eq_mult)
  moreover have "nat (sint a + 1 - 1) = unat a" using rank_ok_sint [OF assms] by simp
  ultimately show ?thesis by simp
qed

lemma merge_scan_spec:
  assumes "list_all rank_ok row" and "combine_row_left_spec (map sint row) = (row', delta, n)"
  shows "merge_scan row = (map word_of_int row', word_of_int delta, n) \<and> 0 \<le> delta \<and>
         delta \<le> int (length row) * 2 ^ 29 \<and> list_all (\<lambda>x. 0 \<le> x \<and> x \<le> 31) row'"
  using assms
proof (induction row arbitrary: row' delta n rule: merge_scan.induct)
  case (1 a b rest)
  from "1.prems"(1) have ok: "rank_ok a" "rank_ok b" "list_all rank_ok rest" by simp_all
  have ra: "0 \<le> sint a" "sint a \<le> 30" "nat (sint a) = unat a"
    using rank_ok_sint [OF ok(1)] rank_ok_uint [OF ok(1)] by simp_all
  show ?case
  proof (cases "b \<noteq> 0 \<and> a = b")
    case True
    obtain r1 d1 n1 where s: "combine_row_left_spec (map sint rest) = (r1, d1, n1)"
      by (cases "combine_row_left_spec (map sint rest)") auto
    from "1.IH"(1) [OF True ok(3) s]
    have ih: "merge_scan rest = (map word_of_int r1, word_of_int d1, n1)" "0 \<le> d1"
      "d1 \<le> int (length rest) * 2 ^ 29" "list_all (\<lambda>x. 0 \<le> x \<and> x \<le> 31) r1" by simp_all
    from True have c: "sint b \<noteq> 0 \<and> sint a = sint b" by (simp add: sint_zero_iff)
    from "1.prems"(2) c s
    have r: "row' = (sint a + 1) # 0 # r1" "delta = 2 ^ nat (sint a + 1 - 1) + d1" "n = Suc n1"
      by (simp_all add: Let_def)
    have p: "(2::int) ^ unat a \<le> 2 ^ 30" using ra by (intro power_increasing) simp_all
    have "merge_scan (a # b # rest) = (map word_of_int row', word_of_int delta, n)"
      using True ih(1) r shl1_rank [OF ok(1)] by simp
    moreover have "0 \<le> delta" using r ih(2) by simp
    moreover have "delta \<le> int (length (a # b # rest)) * 2 ^ 29" using r ih(3) p ra by simp
    moreover have "list_all (\<lambda>x. 0 \<le> x \<and> x \<le> 31) row'" using r ih(4) ra by simp
    ultimately show ?thesis by simp
  next
    case False
    obtain r1 d1 n1 where s: "combine_row_left_spec (map sint (b # rest)) = (r1, d1, n1)"
      by (cases "combine_row_left_spec (map sint (b # rest))") auto
    from ok have okr: "list_all rank_ok (b # rest)" by simp
    from "1.IH"(2) [OF False okr s]
    have ih: "merge_scan (b # rest) = (map word_of_int r1, word_of_int d1, n1)" "0 \<le> d1"
      "d1 \<le> int (length (b # rest)) * 2 ^ 29" "list_all (\<lambda>x. 0 \<le> x \<and> x \<le> 31) r1" by simp_all
    from False have c: "\<not> (sint b \<noteq> 0 \<and> sint a = sint b)"
      by (simp add: sint_zero_iff sint_eq_iff')
    from "1.prems"(2) c s
    have r: "row' = sint a # r1" "delta = d1" "n = n1" by (auto simp add: Let_def)
    have "merge_scan (a # b # rest) = (map word_of_int row', word_of_int delta, n)"
      using False ih(1) r by auto
    moreover have "delta \<le> int (length (a # b # rest)) * 2 ^ 29" using r ih(3) by simp
    moreover have "list_all (\<lambda>x. 0 \<le> x \<and> x \<le> 31) row'" using r ih(4) ra by simp
    ultimately show ?thesis using r ih(2) by simp
  qed
next
  case "2_1"
  then show ?case by simp
next
  case "2_2"
  then show ?case by (auto dest: rank_ok_bounds)
qed

lemma sint_of_int_range:
  assumes "- (2 ^ 31) \<le> k" and "k < 2 ^ 31"
  shows "sint (word_of_int k :: cint) = k"
  using assms by (simp add: sint_sbintrunc' signed_take_bit_int_eq_self)

lemma sint_add_small:
  assumes "0 \<le> k" and "sint (x::cint) + k < 2 ^ 31"
  shows "sint (x + word_of_int k) = sint x + k"
proof -
  have "x + word_of_int k = word_of_int (sint x + k)" by simp
  moreover have "- (2 ^ 31) \<le> sint x + k" using sint_ge [of x] assms(1) by simp
  ultimately show ?thesis using assms(2) by (simp only: sint_of_int_range)
qed

section \<open>Properties of the moves\<close>

lemma wf_row4: "wf_row [a, b, c, d]"
  by (simp add: wf_row_def NCOLS_def NROWS_def)

lemma move_cases:
  assumes "wf_game g" and "m \<in> {move_left, move_right, move_up, move_down}"
  shows "wf_game (m g) \<and>
         (m g = g \<or>
          turns (m g) = turns g + 1 \<and> board (m g) \<noteq> board g \<and> has_empty (m g))"
  using assms move_left_cases move_right_cases move_up_cases move_down_cases by auto

lemma move_left_scenario_eq:
  "move_left \<lparr>turns = t, score = s,
      board = [[1, 1, 2, 2], [0, 0, 0, 0], [0, 0, 0, 0], [0, 0, 0, 0]]\<rparr> =
     \<lparr>turns = t + 1, score = s + 6,
      board = [[2, 3, 0, 0], [0, 0, 0, 0], [0, 0, 0, 0], [0, 0, 0, 0]]\<rparr>"
  by (simp add: move_left_def upt_NROWS move_left_row_row_left row_left_def
        deflate_left_compact_row combine_left_scan_eq wf_row4 compact_row_def zeros_def shl1_def)

text \<open>
  C1. On the row of ranks \<open>[1, 1, 2, 2]\<close> (displayed 2, 2, 4, 4) \<^verbatim>\<open>move_left\<close> leaves the
  ranks \<open>[2, 3, 0, 0]\<close> (displayed 4, 8). The score grows by 6 and not by 12: each merge
  adds \<^verbatim>\<open>1 << (row[c-1] - 1)\<close>, half of the value displayed for the new tile, so the two
  merges add 2 and 4. The other rows are empty here, and the move counts as one turn. The
  sums are those of the machine; read as numbers, the score is 6 more and \<open>turns\<close> 1 more
  whenever that is still an \<^verbatim>\<open>int\<close>.
\<close>

theorem move_left_scenario:
  "move_left \<lparr>turns = t, score = s,
      board = [[1, 1, 2, 2], [0, 0, 0, 0], [0, 0, 0, 0], [0, 0, 0, 0]]\<rparr> =
     \<lparr>turns = t + 1, score = s + 6,
      board = [[2, 3, 0, 0], [0, 0, 0, 0], [0, 0, 0, 0], [0, 0, 0, 0]]\<rparr> \<and>
   (sint s + 6 < 2 ^ 31 \<longrightarrow>
      sint (score (move_left \<lparr>turns = t, score = s,
        board = [[1, 1, 2, 2], [0, 0, 0, 0], [0, 0, 0, 0], [0, 0, 0, 0]]\<rparr>)) = sint s + 6) \<and>
   (sint t + 1 < 2 ^ 31 \<longrightarrow>
      sint (turns (move_left \<lparr>turns = t, score = s,
        board = [[1, 1, 2, 2], [0, 0, 0, 0], [0, 0, 0, 0], [0, 0, 0, 0]]\<rparr>)) = sint t + 1)"
  using sint_add_small [of 6 s] sint_add_small [of 1 t]
  by (simp add: move_left_scenario_eq)

theorem move_left_scenario_witness:
  "sint (0::cint) + 6 < 2 ^ 31 \<and> sint (3::cint) + 1 < 2 ^ 31 \<and>
   move_left \<lparr>turns = 3, score = 0,
      board = [[1, 1, 2, 2], [0, 0, 0, 0], [0, 0, 0, 0], [0, 0, 0, 0]]\<rparr> =
     \<lparr>turns = 4, score = 6,
      board = [[2, 3, 0, 0], [0, 0, 0, 0], [0, 0, 0, 0], [0, 0, 0, 0]]\<rparr> \<and>
   sint (score (move_left \<lparr>turns = 3, score = 0,
      board = [[1, 1, 2, 2], [0, 0, 0, 0], [0, 0, 0, 0], [0, 0, 0, 0]]\<rparr>)) = 6 \<and>
   sint (turns (move_left \<lparr>turns = 3, score = 0,
      board = [[1, 1, 2, 2], [0, 0, 0, 0], [0, 0, 0, 0], [0, 0, 0, 0]]\<rparr>)) = 4"
  using move_left_scenario [of 3 0] by simp

text \<open>The same scenario started from score 0: the row is as expected, the score is not 12.\<close>

theorem move_left_scenario_not_12:
  "\<not> (board (move_left \<lparr>turns = 0, score = 0,
          board = [[1, 1, 2, 2], [0, 0, 0, 0], [0, 0, 0, 0], [0, 0, 0, 0]]\<rparr>) ! 0 = [2, 3, 0, 0] \<and>
       sint (score (move_left \<lparr>turns = 0, score = 0,
          board = [[1, 1, 2, 2], [0, 0, 0, 0], [0, 0, 0, 0], [0, 0, 0, 0]]\<rparr>)) = 0 + 12)"
  by code_simp

text \<open>
  C2. On a row of the board whose ranks are between 0 and 30, \<^verbatim>\<open>combine_left\<close> is the scan
  of the specification: going from the left, a pair of adjacent equal ranks that are not 0
  becomes the next rank and an empty cell and adds \<open>2 ^ (new_rank - 1)\<close> to the score; the
  scan goes on behind the pair, so no cell is in two merges; the flag returned is 1 exactly
  when there was a merge. The score is added in the arithmetic of the machine; as a number
  it grows by exactly the sum of the specification whenever that is still an \<^verbatim>\<open>int\<close>.
\<close>

theorem combine_left_scan:
  assumes "wf_row row" and "list_all rank_ok row"
    and "combine_row_left_spec (map sint row) = (row', delta, n)"
  shows "combine_left sc row =
           (sc + word_of_int delta, map word_of_int row', if 0 < n then 1 else 0) \<and>
         map sint (map word_of_int row' :: tile list) = row' \<and>
         (sint sc + delta < 2 ^ 31 \<longrightarrow> sint (sc + word_of_int delta) = sint sc + delta)"
proof -
  note f = merge_scan_spec [OF assms(2,3)]
  have "combine_left sc row =
           (sc + word_of_int delta, map word_of_int row', if 0 < n then 1 else 0)"
    using f by (simp add: combine_left_scan_eq [OF assms(1)])
  moreover have "sint (word_of_int x :: cint) = x" if "x \<in> set row'" for x
  proof -
    from f that have "0 \<le> x \<and> x \<le> 31" by (simp add: list_all_iff)
    then show ?thesis by (intro sint_of_int_range) simp_all
  qed
  then have "map sint (map word_of_int row' :: tile list) = row'"
    by (simp add: map_idI)
  moreover have "sint (sc + word_of_int delta) = sint sc + delta" if "sint sc + delta < 2 ^ 31"
    using f that by (intro sint_add_small) simp_all
  ultimately show ?thesis by blast
qed

theorem combine_left_scan_witness:
  "wf_row [1, 1, 1, 1] \<and> list_all rank_ok [1, 1, 1, 1] \<and>
   combine_row_left_spec (map sint [1, 1, 1, 1 :: tile]) = ([2, 0, 2, 0], 4, 2) \<and>
   sint (5::cint) + 4 < 2 ^ 31 \<and>
   combine_left 5 [1, 1, 1, 1] = (9, [2, 0, 2, 0], 1) \<and>
   sint (5 + word_of_int 4 :: cint) = 9"
proof -
  have w: "wf_row [1, 1, 1, 1]" by code_simp
  have k: "list_all rank_ok [1, 1, 1, 1]" by code_simp
  have m: "combine_row_left_spec (map sint [1, 1, 1, 1 :: tile]) = ([2, 0, 2, 0], 4, 2)"
    by code_simp
  from combine_left_scan [OF w k m, of 5] w k m show ?thesis by simp
qed

text \<open>
  C3. Each of the four moves adds exactly 1 to \<open>turns\<close> when it changes the board and
  nothing when it leaves the board as it was. The sum is that of the machine; read as a
  number, \<open>turns\<close> is 1 more, or the same, whenever \<open>turns + 1\<close> is still an \<^verbatim>\<open>int\<close>.
\<close>

theorem turns_effective_move:
  assumes "wf_game g" and "m \<in> {move_left, move_right, move_up, move_down}"
  shows "turns (m g) = turns g + (if board (m g) \<noteq> board g then 1 else 0) \<and>
         (sint (turns g) + 1 < 2 ^ 31 \<longrightarrow>
            sint (turns (m g)) = sint (turns g) + (if board (m g) \<noteq> board g then 1 else 0))"
proof -
  have e: "turns (m g) = turns g + (if board (m g) \<noteq> board g then 1 else 0)"
    using move_cases [OF assms] by auto
  have "sint (turns (m g)) = sint (turns g) + (if board (m g) \<noteq> board g then 1 else 0)"
    if "sint (turns g) + 1 < 2 ^ 31"
    using e that sint_add_small [of 1 "turns g"] by (simp split: if_splits)
  with e show ?thesis by blast
qed

lemma move_flag:
  assumes "wf_game g" and "m \<in> {move_left, move_right, move_up, move_down}"
  shows "\<exists>d::cint. (d = 0 \<or> d = 1) \<and> turns (m g) = turns g + d \<and> (d = 0 \<longrightarrow> m g = g) \<and>
           wf_game (m g)"
proof (cases "m g = g")
  case True
  with assms(1) show ?thesis by (intro exI [of _ 0]) simp
next
  case False
  with move_cases [OF assms] show ?thesis by (intro exI [of _ 1]) simp
qed

theorem turns_effective_move_witness:
  "wf_game \<lparr>turns = 3, score = 7,
      board = [[1, 1, 2, 2], [0, 0, 0, 0], [1, 0, 1, 1], [1, 2, 3, 4]]\<rparr> \<and>
   board (move_right \<lparr>turns = 3, score = 7,
      board = [[1, 1, 2, 2], [0, 0, 0, 0], [1, 0, 1, 1], [1, 2, 3, 4]]\<rparr>) \<noteq>
     [[1, 1, 2, 2], [0, 0, 0, 0], [1, 0, 1, 1], [1, 2, 3, 4]] \<and>
   (turns (move_right \<lparr>turns = 3, score = 7,
      board = [[1, 1, 2, 2], [0, 0, 0, 0], [1, 0, 1, 1], [1, 2, 3, 4]]\<rparr>) = 3 + 1 \<and>
    sint (turns (move_right \<lparr>turns = 3, score = 7,
      board = [[1, 1, 2, 2], [0, 0, 0, 0], [1, 0, 1, 1], [1, 2, 3, 4]]\<rparr>)) = 3 + 1) \<and>
   wf_game \<lparr>turns = 3, score = 7,
      board = [[1, 2, 1, 2], [2, 1, 2, 1], [1, 2, 1, 2], [2, 1, 2, 1]]\<rparr> \<and>
   board (move_up \<lparr>turns = 3, score = 7,
      board = [[1, 2, 1, 2], [2, 1, 2, 1], [1, 2, 1, 2], [2, 1, 2, 1]]\<rparr>) =
     [[1, 2, 1, 2], [2, 1, 2, 1], [1, 2, 1, 2], [2, 1, 2, 1]] \<and>
   (turns (move_up \<lparr>turns = 3, score = 7,
      board = [[1, 2, 1, 2], [2, 1, 2, 1], [1, 2, 1, 2], [2, 1, 2, 1]]\<rparr>) = 3 + 0 \<and>
    sint (turns (move_up \<lparr>turns = 3, score = 7,
      board = [[1, 2, 1, 2], [2, 1, 2, 1], [1, 2, 1, 2], [2, 1, 2, 1]]\<rparr>)) = 3 + 0)"
proof -
  let ?g = "\<lparr>turns = 3, score = 7,
      board = [[1, 1, 2, 2], [0, 0, 0, 0], [1, 0, 1, 1], [1, 2, 3, 4]]\<rparr>"
  let ?h = "\<lparr>turns = 3, score = 7,
      board = [[1, 2, 1, 2], [2, 1, 2, 1], [1, 2, 1, 2], [2, 1, 2, 1]]\<rparr>"
  have wg: "wf_game ?g" by code_simp
  have bg: "board (move_right ?g) \<noteq> [[1, 1, 2, 2], [0, 0, 0, 0], [1, 0, 1, 1], [1, 2, 3, 4]]"
    by code_simp
  have wh: "wf_game ?h" by code_simp
  have bh: "board (move_up ?h) = [[1, 2, 1, 2], [2, 1, 2, 1], [1, 2, 1, 2], [2, 1, 2, 1]]"
    by code_simp
  from turns_effective_move [OF wg, of move_right] bg
  have tg: "turns (move_right ?g) = 3 + 1 \<and> sint (turns (move_right ?g)) = 3 + 1" by simp
  from turns_effective_move [OF wh, of move_up] bh
  have th: "turns (move_up ?h) = 3 + 0 \<and> sint (turns (move_up ?h)) = 3 + 0" by simp
  from wg bg tg wh bh th show ?thesis by blast
qed

text \<open>
  C4. When \<^verbatim>\<open>lose_game\<close> answers true, none of the four moves, each applied to the game
  itself, changes \<open>turns\<close>; the move leaves the whole game as it was.
\<close>

theorem lose_game_sound:
  assumes "wf_game g" and "lose_game g" and "m \<in> {move_left, move_right, move_up, move_down}"
  shows "turns (m g) = turns g \<and> m g = g"
proof -
  let ?g1 = "move_left g"
  let ?g2 = "move_up ?g1"
  let ?g3 = "move_down ?g2"
  let ?g4 = "move_right ?g3"
  obtain d1 where d1: "d1 = 0 \<or> d1 = 1" "turns ?g1 = turns g + d1" "d1 = 0 \<longrightarrow> ?g1 = g"
    and w1: "wf_game ?g1"
    using move_flag [OF assms(1), of move_left] by auto
  obtain d2 where d2: "d2 = 0 \<or> d2 = 1" "turns ?g2 = turns ?g1 + d2" "d2 = 0 \<longrightarrow> ?g2 = ?g1"
    and w2: "wf_game ?g2"
    using move_flag [OF w1, of move_up] by auto
  obtain d3 where d3: "d3 = 0 \<or> d3 = 1" "turns ?g3 = turns ?g2 + d3" "d3 = 0 \<longrightarrow> ?g3 = ?g2"
    and w3: "wf_game ?g3"
    using move_flag [OF w2, of move_down] by auto
  obtain d4 where d4: "d4 = 0 \<or> d4 = 1" "turns ?g4 = turns ?g3 + d4" "d4 = 0 \<longrightarrow> ?g4 = ?g3"
    using move_flag [OF w3, of move_right] by auto
  from assms(2) have "turns ?g4 = turns g" by (simp add: lose_game_def Let_def)
  with d1(2) d2(2) d3(2) d4(2) have "turns g + (d1 + d2 + d3 + d4) = turns g"
    by (simp add: add.assoc)
  then have "d1 + d2 + d3 + d4 = 0" by simp
  with d1(1) d2(1) d3(1) d4(1) have z: "d1 = 0" "d2 = 0" "d3 = 0" "d4 = 0" by auto
  from z d1(3) have e1: "move_left g = g" by simp
  from z d2(3) e1 have e2: "move_up g = g" by simp
  from z d3(3) e1 e2 have e3: "move_down g = g" by simp
  from z d4(3) e1 e2 e3 have e4: "move_right g = g" by simp
  from assms(3) e1 e2 e3 e4 show ?thesis by auto
qed

theorem lose_game_sound_witness:
  "wf_game \<lparr>turns = 40, score = 90,
      board = [[1, 2, 1, 2], [2, 1, 2, 1], [1, 2, 1, 2], [2, 1, 2, 1]]\<rparr> \<and>
   lose_game \<lparr>turns = 40, score = 90,
      board = [[1, 2, 1, 2], [2, 1, 2, 1], [1, 2, 1, 2], [2, 1, 2, 1]]\<rparr> \<and>
   turns (move_down \<lparr>turns = 40, score = 90,
      board = [[1, 2, 1, 2], [2, 1, 2, 1], [1, 2, 1, 2], [2, 1, 2, 1]]\<rparr>) = 40 \<and>
   move_down \<lparr>turns = 40, score = 90,
      board = [[1, 2, 1, 2], [2, 1, 2, 1], [1, 2, 1, 2], [2, 1, 2, 1]]\<rparr> =
     \<lparr>turns = 40, score = 90,
      board = [[1, 2, 1, 2], [2, 1, 2, 1], [1, 2, 1, 2], [2, 1, 2, 1]]\<rparr>"
proof -
  let ?g = "\<lparr>turns = 40, score = 90,
      board = [[1, 2, 1, 2], [2, 1, 2, 1], [1, 2, 1, 2], [2, 1, 2, 1]]\<rparr>"
  have w: "wf_game ?g" by code_simp
  have l: "lose_game ?g" by code_simp
  from lose_game_sound [OF w l, of move_down] w l show ?thesis by simp
qed

text \<open>
  C5. A move that advances \<open>turns\<close> leaves at least one empty cell on the board, so the
  call of \<^verbatim>\<open>place_tile\<close> that \<^verbatim>\<open>main\<close> makes after such a move returns 0, whatever the
  generator draws.
\<close>

theorem effective_move_leaves_empty:
  assumes "wf_game g" and "m \<in> {move_left, move_right, move_up, move_down}"
    and "turns (m g) \<noteq> turns g"
  shows "empty_cells (m g) \<noteq> [] \<and> (\<exists>g' s'. place_tile random (m g) s = Inr (0, g', s'))"
proof -
  from move_cases [OF assms(1,2)] assms(3) have w: "wf_game (m g)" and e: "has_empty (m g)"
    by auto
  then have ne: "empty_cells (m g) \<noteq> []" by (rule has_empty_cells)
  obtain x s1 where r1: "random s = (x, s1)" by (cases "random s") auto
  obtain y s2 where r2: "random s1 = (y, s2)" by (cases "random s1") auto
  obtain r c where rc: "empty_cells (m g) ! (x mod length (empty_cells (m g))) = (r, c)"
    by (cases "empty_cells (m g) ! (x mod length (empty_cells (m g)))") auto
  from place_tile_free [OF ne r1 r2 rc] ne show ?thesis by blast
qed

theorem effective_move_leaves_empty_witness:
  "wf_game \<lparr>turns = 5, score = 8,
      board = [[1, 2, 3, 4], [1, 3, 2, 5], [2, 1, 4, 3], [3, 2, 1, 2]]\<rparr> \<and>
   turns (move_down \<lparr>turns = 5, score = 8,
      board = [[1, 2, 3, 4], [1, 3, 2, 5], [2, 1, 4, 3], [3, 2, 1, 2]]\<rparr>) \<noteq> 5 \<and>
   empty_cells (move_down \<lparr>turns = 5, score = 8,
      board = [[1, 2, 3, 4], [1, 3, 2, 5], [2, 1, 4, 3], [3, 2, 1, 2]]\<rparr>) \<noteq> [] \<and>
   (\<exists>g' s'. place_tile counter_random (move_down \<lparr>turns = 5, score = 8,
      board = [[1, 2, 3, 4], [1, 3, 2, 5], [2, 1, 4, 3], [3, 2, 1, 2]]\<rparr>) 0 = Inr (0, g', s'))"
proof -
  let ?g = "\<lparr>turns = 5, score = 8,
      board = [[1, 2, 3, 4], [1, 3, 2, 5], [2, 1, 4, 3], [3, 2, 1, 2]]\<rparr>"
  have w: "wf_game ?g" by code_simp
  have t: "turns (move_down ?g) \<noteq> 5" by code_simp
  have t': "turns (move_down ?g) \<noteq> turns ?g" using t by simp
  have d: "move_down \<in> {move_left, move_right, move_up, move_down}" by simp
  from effective_move_leaves_empty [OF w d t', of counter_random 0] w t show ?thesis by simp
qed

text \<open>
  C6. \<^verbatim>\<open>place_tile\<close> returns \<open>-1\<close> exactly when the board has no empty cell, and then the
  game and the generator are as before. Otherwise it returns 0 after two draws \<open>x\<close> and
  \<open>y\<close>: the empty cell number \<open>x mod n\<close> in row-major order, \<open>n\<close> being the number of
  empty cells, receives rank 1 when \<open>y mod 10\<close> is not 0 and rank 2 when it is; no other
  cell, and neither \<open>score\<close> nor \<open>turns\<close>, changes. The assertion at the end is never reached.
\<close>

theorem place_tile_spec:
  assumes "wf_game g"
  shows "place_tile random g s =
           (if empty_cells g = [] then Inr (- 1, g, s)
            else case random s of (x, s1) \<Rightarrow> case random s1 of (y, s2) \<Rightarrow>
              case empty_cells g ! (x mod length (empty_cells g)) of (r, c) \<Rightarrow>
                Inr (0, g\<lparr>board := (board g)[r := (board g ! r)
                            [c := (if y mod 10 \<noteq> 0 then 1 else 2)]]\<rparr>, s2))"
proof (cases "empty_cells g = []")
  case True
  then show ?thesis by (simp add: place_tile_full)
next
  case False
  obtain x s1 where r1: "random s = (x, s1)" by (cases "random s") auto
  obtain y s2 where r2: "random s1 = (y, s2)" by (cases "random s1") auto
  obtain r c where rc: "empty_cells g ! (x mod length (empty_cells g)) = (r, c)"
    by (cases "empty_cells g ! (x mod length (empty_cells g))") auto
  from place_tile_free [OF False r1 r2 rc] False r1 r2 rc show ?thesis by simp
qed

theorem place_tile_spec_witness:
  "wf_game \<lparr>turns = 3, score = 7,
      board = [[1, 2, 1, 2], [2, 1, 2, 1], [1, 2, 1, 2], [2, 1, 2, 1]]\<rparr> \<and>
   place_tile counter_random \<lparr>turns = 3, score = 7,
      board = [[1, 2, 1, 2], [2, 1, 2, 1], [1, 2, 1, 2], [2, 1, 2, 1]]\<rparr> 5 =
     Inr (- 1, \<lparr>turns = 3, score = 7,
      board = [[1, 2, 1, 2], [2, 1, 2, 1], [1, 2, 1, 2], [2, 1, 2, 1]]\<rparr>, 5) \<and>
   wf_game \<lparr>turns = 3, score = 7,
      board = [[1, 0, 1, 2], [2, 0, 2, 1], [0, 2, 1, 2], [2, 1, 2, 0]]\<rparr> \<and>
   empty_cells \<lparr>turns = 3, score = 7,
      board = [[1, 0, 1, 2], [2, 0, 2, 1], [0, 2, 1, 2], [2, 1, 2, 0]]\<rparr> =
     [(0, 1), (1, 1), (2, 0), (3, 3)] \<and>
   place_tile counter_random \<lparr>turns = 3, score = 7,
      board = [[1, 0, 1, 2], [2, 0, 2, 1], [0, 2, 1, 2], [2, 1, 2, 0]]\<rparr> 9 =
     Inr (0, \<lparr>turns = 3, score = 7,
      board = [[1, 0, 1, 2], [2, 2, 2, 1], [0, 2, 1, 2], [2, 1, 2, 0]]\<rparr>, 11)"
proof -
  let ?g = "\<lparr>turns = 3, score = 7,
      board = [[1, 2, 1, 2], [2, 1, 2, 1], [1, 2, 1, 2], [2, 1, 2, 1]]\<rparr>"
  let ?h = "\<lparr>turns = 3, score = 7,
      board = [[1, 0, 1, 2], [2, 0, 2, 1], [0, 2, 1, 2], [2, 1, 2, 0]]\<rparr>"
  have wg: "wf_game ?g" by code_simp
  have eg: "empty_cells ?g = []" by code_simp
  have wh: "wf_game ?h" by code_simp
  have eh: "empty_cells ?h = [(0, 1), (1, 1), (2, 0), (3, 3)]" by code_simp
  have pg: "place_tile counter_random ?g 5 = Inr (- 1, ?g, 5)"
    using place_tile_spec [OF wg, of counter_random 5] eg by simp
  have ph: "place_tile counter_random ?h 9 =
     Inr (0, \<lparr>turns = 3, score = 7,
      board = [[1, 0, 1, 2], [2, 2, 2, 1], [0, 2, 1, 2], [2, 1, 2, 0]]\<rparr>, 11)"
    by (subst place_tile_spec [OF wh]) code_simp
  from wg pg wh eh ph show ?thesis by blast
qed

text \<open>C9. Four calls of \<^verbatim>\<open>rotate_clockwise\<close> in a row give back the board, and the game.\<close>

theorem rotate_clockwise_four:
  assumes "wf_game g"
  shows "(rotate_clockwise ^^ 4) g = g"
  using rotate4 [OF assms] by (simp add: eval_nat_numeral)

theorem rotate_clockwise_four_witness:
  "wf_game \<lparr>turns = 2, score = 4,
      board = [[1, 2, 3, 4], [5, 6, 7, 8], [9, 10, 11, 12], [13, 14, 15, 16]]\<rparr> \<and>
   rotate_clockwise \<lparr>turns = 2, score = 4,
      board = [[1, 2, 3, 4], [5, 6, 7, 8], [9, 10, 11, 12], [13, 14, 15, 16]]\<rparr> =
     \<lparr>turns = 2, score = 4,
      board = [[13, 9, 5, 1], [14, 10, 6, 2], [15, 11, 7, 3], [16, 12, 8, 4]]\<rparr> \<and>
   (rotate_clockwise ^^ 4) \<lparr>turns = 2, score = 4,
      board = [[1, 2, 3, 4], [5, 6, 7, 8], [9, 10, 11, 12], [13, 14, 15, 16]]\<rparr> =
     \<lparr>turns = 2, score = 4,
      board = [[1, 2, 3, 4], [5, 6, 7, 8], [9, 10, 11, 12], [13, 14, 15, 16]]\<rparr>"
proof -
  let ?g = "\<lparr>turns = 2, score = 4,
      board = [[1, 2, 3, 4], [5, 6, 7, 8], [9, 10, 11, 12], [13, 14, 15, 16]]\<rparr>"
  have w: "wf_game ?g" by code_simp
  have r: "rotate_clockwise ?g = \<lparr>turns = 2, score = 4,
      board = [[13, 9, 5, 1], [14, 10, 6, 2], [15, 11, 7, 3], [16, 12, 8, 4]]\<rparr>"
    by code_simp
  from rotate_clockwise_four [OF w] w r show ?thesis by blast
qed

text \<open>
  C10. \<^verbatim>\<open>rotate_clockwise\<close> writes the board only: \<open>turns\<close> and \<open>score\<close> are those of the
  argument. So \<open>turns\<close> and \<open>score\<close> after \<^verbatim>\<open>move_right\<close>, \<^verbatim>\<open>move_up\<close> and \<^verbatim>\<open>move_down\<close> are
  the ones \<^verbatim>\<open>move_left\<close> leaves on the rotated game.
\<close>

theorem rotate_clockwise_frame:
  "turns (rotate_clockwise g) = turns g \<and> score (rotate_clockwise g) = score g \<and>
   turns (move_right g) = turns (move_left (rotate_clockwise (rotate_clockwise g))) \<and>
   score (move_right g) = score (move_left (rotate_clockwise (rotate_clockwise g))) \<and>
   turns (move_up g) =
     turns (move_left (rotate_clockwise (rotate_clockwise (rotate_clockwise g)))) \<and>
   score (move_up g) =
     score (move_left (rotate_clockwise (rotate_clockwise (rotate_clockwise g)))) \<and>
   turns (move_down g) = turns (move_left (rotate_clockwise g)) \<and>
   score (move_down g) = score (move_left (rotate_clockwise g))"
  by (simp add: rotate_fields move_right_def move_up_def move_down_def)

section \<open>Input and the main loop: properties\<close>

lemma getline_nonempty:
  assumes "getline f = Some (line, rest)"
  shows "line \<noteq> []"
proof -
  from assms have f: "f \<noteq> []" by (auto simp add: getline_def split: if_splits)
  from assms f have l: "line = takeWhile (\<lambda>c. c \<noteq> newline) f @ take 1 (dropWhile (\<lambda>c. c \<noteq> newline) f)"
    by (simp add: getline_def Let_def)
  show ?thesis
  proof (cases "takeWhile (\<lambda>c. c \<noteq> newline) f = []")
    case True
    then have "dropWhile (\<lambda>c. c \<noteq> newline) f = f"
      using takeWhile_dropWhile_id [of "\<lambda>c. c \<noteq> newline" f] by simp
    with f l show ?thesis by (cases f) simp_all
  next
    case False
    with l show ?thesis by simp
  qed
qed

lemma char_at_range: "0 \<le> char_at line n \<and> char_at line n < 256"
proof -
  have "(of_char c :: int) = int (of_char c)" for c by (simp add: of_nat_of_char)
  moreover have "(of_char c :: nat) < 256" for c by simp
  ultimately have "0 \<le> (of_char c :: int) \<and> (of_char c :: int) < 256" for c
    by (metis of_nat_0_le_iff of_nat_less_iff of_nat_numeral)
  then show ?thesis by (simp add: char_at_def)
qed

lemma apply_key_other:
  assumes "0 \<le> key" "key < 256"
    and "key \<notin> {of_char CHR ''a'', of_char CHR ''s'', of_char CHR ''w'', of_char CHR ''d'', of_char CHR ''q''}"
  shows "apply_key key g = Some g"
  using assms by (simp add: apply_key_def KEY_LEFT_def KEY_DOWN_def KEY_UP_def KEY_RIGHT_def)

text \<open>
  C7. In playback, \<^verbatim>\<open>get_input\<close> gives \<^verbatim>\<open>'q'\<close> only when the file is exhausted (or the
  line starts with q): a step of \<^verbatim>\<open>main\<close> on an exhausted file ends in \<open>Quit\<close>. A blank
  line, or a line whose first character after blanks and tabs is none of a, s, w, d, q,
  does not end the session: the step returns to the loop with the game as it was and the
  line consumed. The game is supposed not to be lost, which \<^verbatim>\<open>main\<close> tests first.
\<close>

theorem playback_input:
  assumes "playfile s = Some f" and "\<not> lose_game (game s)"
  shows "(f = [] \<longrightarrow> main_step random s = Quit s) \<and>
         (\<forall>line rest. getline f = Some (line, rest) \<and>
            char_at line (strspn line [CHR '' '', CHR 0x09]) \<notin>
              {of_char CHR ''a'', of_char CHR ''s'', of_char CHR ''w'', of_char CHR ''d'',
               of_char CHR ''q''} \<longrightarrow>
            main_step random s = Playing (s\<lparr>playfile := Some rest\<rparr>))"
proof (intro conjI allI impI)
  assume "f = []"
  with assms show "main_step random s = Quit s"
    by (simp add: main_step_def get_input_def getline_def apply_key_def
          KEY_LEFT_def KEY_DOWN_def KEY_UP_def KEY_RIGHT_def)
next
  fix line rest
  let ?k = "char_at line (strspn line [CHR '' '', CHR 0x09])"
  assume a: "getline f = Some (line, rest) \<and>
    ?k \<notin> {of_char CHR ''a'', of_char CHR ''s'', of_char CHR ''w'', of_char CHR ''d'', of_char CHR ''q''}"
  then have ne: "0 < length line" using getline_nonempty by auto
  have gi: "get_input s = (?k, s\<lparr>playfile := Some rest\<rparr>)"
    using assms(1) a ne by (simp add: get_input_def)
  have ak: "apply_key ?k (game s) = Some (game s)"
    using a char_at_range [of line] by (intro apply_key_other) auto
  show "main_step random s = Playing (s\<lparr>playfile := Some rest\<rparr>)"
    using assms(2) gi ak by (simp add: main_step_def place_and_record_def)
qed

theorem playback_input_witness:
  "playfile \<lparr>game = \<lparr>turns = 0, score = 0,
       board = [[1, 0, 0, 0], [0, 0, 0, 0], [0, 0, 0, 0], [0, 0, 0, 2]]\<rparr>,
     rng = 0::nat, playfile = Some [], recfile = None, keyboard = []\<rparr> = Some [] \<and>
   \<not> lose_game \<lparr>turns = 0, score = 0,
       board = [[1, 0, 0, 0], [0, 0, 0, 0], [0, 0, 0, 0], [0, 0, 0, 2]]\<rparr> \<and>
   main_step counter_random \<lparr>game = \<lparr>turns = 0, score = 0,
       board = [[1, 0, 0, 0], [0, 0, 0, 0], [0, 0, 0, 0], [0, 0, 0, 2]]\<rparr>,
     rng = 0, playfile = Some [], recfile = None, keyboard = []\<rparr> =
   Quit \<lparr>game = \<lparr>turns = 0, score = 0,
       board = [[1, 0, 0, 0], [0, 0, 0, 0], [0, 0, 0, 0], [0, 0, 0, 2]]\<rparr>,
     rng = 0, playfile = Some [], recfile = None, keyboard = []\<rparr> \<and>
   getline [CHR ''x'', CHR '':'', CHR ''0'', newline, CHR ''a''] =
     Some ([CHR ''x'', CHR '':'', CHR ''0'', newline], [CHR ''a'']) \<and>
   main_step counter_random \<lparr>game = \<lparr>turns = 0, score = 0,
       board = [[1, 0, 0, 0], [0, 0, 0, 0], [0, 0, 0, 0], [0, 0, 0, 2]]\<rparr>,
     rng = 0, playfile = Some [CHR ''x'', CHR '':'', CHR ''0'', newline, CHR ''a''],
     recfile = None, keyboard = []\<rparr> =
   Playing \<lparr>game = \<lparr>turns = 0, score = 0,
       board = [[1, 0, 0, 0], [0, 0, 0, 0], [0, 0, 0, 0], [0, 0, 0, 2]]\<rparr>,
     rng = 0, playfile = Some [CHR ''a''], recfile = None, keyboard = []\<rparr>"
proof -
  let ?g = "\<lparr>turns = 0, score = 0,
       board = [[1, 0, 0, 0], [0, 0, 0, 0], [0, 0, 0, 0], [0, 0, 0, 2]]\<rparr>"
  let ?s = "\<lambda>f. \<lparr>game = ?g, rng = 0::nat, playfile = Some f, recfile = None, keyboard = []\<rparr>"
  let ?f = "[CHR ''x'', CHR '':'', CHR ''0'', newline, CHR ''a'']"
  have nl: "\<not> lose_game ?g" by code_simp
  have gl: "getline ?f = Some ([CHR ''x'', CHR '':'', CHR ''0'', newline], [CHR ''a''])"
    by code_simp
  have k: "char_at [CHR ''x'', CHR '':'', CHR ''0'', newline] (strspn [CHR ''x'', CHR '':'', CHR ''0'', newline] [CHR '' '', CHR 0x09]) \<notin>
              {of_char CHR ''a'', of_char CHR ''s'', of_char CHR ''w'', of_char CHR ''d'',
               of_char CHR ''q''}"
    by code_simp
  have a: "main_step counter_random (?s []) = Quit (?s [])"
    using playback_input [of "?s []" "[]" counter_random] nl by simp
  have b: "main_step counter_random (?s ?f) = Playing (?s [CHR ''a''])"
    using playback_input [of "?s ?f" ?f counter_random] nl gl k by simp
  from nl gl a b show ?thesis by simp
qed

text \<open>
  A blank line and a line with the key x, each followed by a line for the key a: the
  session goes on to that line.
\<close>

theorem playback_blank_line_continues:
  "main_step counter_random \<lparr>game = \<lparr>turns = 0, score = 0,
       board = [[1, 0, 0, 0], [0, 0, 0, 0], [0, 0, 0, 0], [0, 0, 0, 2]]\<rparr>,
     rng = 0, playfile = Some [newline, CHR ''a'', newline], recfile = None, keyboard = []\<rparr> =
   Playing \<lparr>game = \<lparr>turns = 0, score = 0,
       board = [[1, 0, 0, 0], [0, 0, 0, 0], [0, 0, 0, 0], [0, 0, 0, 2]]\<rparr>,
     rng = 0, playfile = Some [CHR ''a'', newline], recfile = None, keyboard = []\<rparr> \<and>
   main_step counter_random \<lparr>game = \<lparr>turns = 0, score = 0,
       board = [[1, 0, 0, 0], [0, 0, 0, 0], [0, 0, 0, 0], [0, 0, 0, 2]]\<rparr>,
     rng = 0, playfile = Some [CHR ''x'', newline, CHR ''a'', newline], recfile = None, keyboard = []\<rparr> =
   Playing \<lparr>game = \<lparr>turns = 0, score = 0,
       board = [[1, 0, 0, 0], [0, 0, 0, 0], [0, 0, 0, 0], [0, 0, 0, 2]]\<rparr>,
     rng = 0, playfile = Some [CHR ''a'', newline], recfile = None, keyboard = []\<rparr>"
  by code_simp



lemma place_tile_turns:
  assumes "place_tile random g s = Inr (ret, g', s')"
  shows "turns g' = turns g"
  using assms
  by (auto simp add: place_tile_def lboard_update_def Let_def split: if_splits prod.splits option.splits)







end
